theory Spec2Isabelle
  imports Main
begin

section \<open>The Go library functions the package calls, on a POSIX host\<close>

text \<open>
  The package \<open>xdg\<close> is written against \<open>os\<close>, \<open>strings\<close> and \<open>path/filepath\<close>.
  The host is fixed to POSIX: \<open>filepath.Separator\<close> is the slash and
  \<open>filepath.ListSeparator\<close> the colon. A Go string is a sequence of bytes, here a
  \<open>string\<close> (a list of 8-bit characters).
\<close>

definition Separator :: char where
  "Separator = CHR ''/''"

definition ListSeparator :: char where
  "ListSeparator = CHR '':''"

definition IsPathSeparator :: "char \<Rightarrow> bool" where
  "IsPathSeparator c = (c = Separator)"

text \<open>
  \<open>strings.Split(s, sep)\<close> for a separator of one byte, the only kind the package
  passes: the substrings between the occurrences of the separator, one more than there
  are occurrences, so the empty string gives one empty substring.
\<close>

fun strings_Split :: "string \<Rightarrow> char \<Rightarrow> string list" where
  "strings_Split [] sep = ['''']"
| "strings_Split (c # cs) sep =
     (if c = sep then [] # strings_Split cs sep
      else (case strings_Split cs sep of
              [] \<Rightarrow> [c # []]
            | x # xs \<Rightarrow> (c # x) # xs))"

text \<open>\<open>strings.Join(elems, sep)\<close>: the elements with the separator between them.\<close>

fun strings_Join :: "string list \<Rightarrow> string \<Rightarrow> string" where
  "strings_Join [] sep = []"
| "strings_Join [x] sep = x"
| "strings_Join (x # y # ys) sep = x @ sep @ strings_Join (y # ys) sep"

text \<open>
  \<open>strings.ToUpper\<close> on the bytes of an ASCII string: the lower-case letters are
  shifted to upper case and every other byte is kept.
\<close>

definition upper_byte :: "char \<Rightarrow> char" where
  "upper_byte c =
     (if of_char (CHR ''a'') \<le> (of_char c :: nat) \<and> (of_char c :: nat) \<le> of_char (CHR ''z'')
      then char_of ((of_char c :: nat) - 32) else c)"

definition strings_ToUpper :: "string \<Rightarrow> string" where
  "strings_ToUpper s = map upper_byte s"

subsection \<open>\<open>filepath.Clean\<close>\<close>

text \<open>
  \<open>Clean\<close> reads the path from left to right and writes into a buffer \<open>out\<close>;
  \<open>dotdot\<close> is the index in the buffer below which a \<open>..\<close> element cannot
  backtrack. The inner loop of the \<open>..\<close> case,
  \<^verbatim>\<open>for out.w > dotdot && !os.IsPathSeparator(out.index(out.w)) { out.w-- }\<close>,
  is \<open>backtrack\<close>: it returns the final write index.
\<close>

fun backtrack :: "string \<Rightarrow> nat \<Rightarrow> nat \<Rightarrow> nat" where
  "backtrack out dotdot w =
     (if w > dotdot \<and> \<not> IsPathSeparator (out ! w) then backtrack out dotdot (w - 1) else w)"

declare backtrack.simps [simp del]

text \<open>
  The main loop \<^verbatim>\<open>for r < n\<close> of \<open>Clean\<close>. The first argument is what is left of
  the path from index \<open>r\<close> on; the four branches are the four cases of the switch, in
  the order of the source: a separator, a \<open>.\<close> element, a \<open>..\<close> element, a real
  element (copied up to the next separator).
\<close>

function clean_loop :: "bool \<Rightarrow> string \<Rightarrow> string \<Rightarrow> nat \<Rightarrow> string" where
  "clean_loop rooted [] out dotdot = out"
| "clean_loop rooted (c # cs) out dotdot =
     (if IsPathSeparator c then clean_loop rooted cs out dotdot
      else if c = CHR ''.'' \<and> (cs = [] \<or> IsPathSeparator (hd cs))
        then clean_loop rooted cs out dotdot
      else if c = CHR ''.'' \<and> hd cs = CHR ''.'' \<and> (tl cs = [] \<or> IsPathSeparator (hd (tl cs)))
        then
          (if length out > dotdot
             then clean_loop rooted (tl cs)
                    (take (backtrack out dotdot (length out - 1)) out) dotdot
           else if \<not> rooted
             then (let out1 = (if length out > 0 then out @ [Separator] else out);
                       out2 = out1 @ ''..''
                   in clean_loop rooted (tl cs) out2 (length out2))
           else clean_loop rooted (tl cs) out dotdot)
      else
        (let out1 = (if rooted \<and> length out \<noteq> 1 \<or> \<not> rooted \<and> length out \<noteq> 0
                     then out @ [Separator] else out)
         in clean_loop rooted (dropWhile (\<lambda>x. \<not> IsPathSeparator x) cs)
              (out1 @ c # takeWhile (\<lambda>x. \<not> IsPathSeparator x) cs) dotdot))"
  by pat_completeness auto
termination
  by (relation "measure (\<lambda>(rooted, path, out, dotdot). length path)")
     (auto simp: less_Suc_eq_le length_dropWhile_le intro: le_trans [OF diff_le_self])

declare clean_loop.simps [simp del]

text \<open>
  \<open>Clean\<close> itself: there is no volume name on POSIX, the empty path becomes \<open>.\<close>, a
  rooted path starts the buffer with the separator and the loop at index 1, and an
  empty buffer at the end becomes \<open>.\<close>.
\<close>

definition Clean :: "string \<Rightarrow> string" where
  "Clean path =
     (if path = [] then ''.''
      else
        (let rooted = IsPathSeparator (hd path);
             out = (if rooted then clean_loop True (tl path) [Separator] 1
                    else clean_loop False path [] 0)
         in if length out = 0 then ''.'' else out))"

text \<open>
  \<open>filepath.Join\<close> on POSIX: the elements from the first non-empty one on are joined
  with the separator and cleaned; when every element is empty the result is empty.
\<close>

fun Join :: "string list \<Rightarrow> string" where
  "Join [] = []"
| "Join (e # es) =
     (if e \<noteq> [] then Clean (strings_Join (e # es) [Separator]) else Join es)"

text \<open>\<open>filepath.SplitList\<close> on POSIX.\<close>

definition SplitList :: "string \<Rightarrow> string list" where
  "SplitList path = (if path = [] then [] else strings_Split path ListSeparator)"

subsection \<open>The environment and the file system\<close>

text \<open>
  The process environment is a map from variable names to values; a variable can be
  set to the empty string, which is not the same as unset.
\<close>

type_synonym environ = "string \<rightharpoonup> string"

definition LookupEnv :: "environ \<Rightarrow> string \<Rightarrow> string option" where
  "LookupEnv env key = env key"

definition Getenv :: "environ \<Rightarrow> string \<Rightarrow> string" where
  "Getenv env key = (case env key of None \<Rightarrow> [] | Some v \<Rightarrow> v)"

datatype os_error = HomeNotDefined

text \<open>\<open>os.UserHomeDir\<close> on Linux: the value of \<open>HOME\<close> when it is not empty.\<close>

definition UserHomeDir :: "environ \<Rightarrow> os_error + string" where
  "UserHomeDir env =
     (let v = Getenv env ''HOME'' in if v \<noteq> [] then Inr v else Inl HomeNotDefined)"

text \<open>
  \<open>os.Stat\<close> answers with an error number or with the file's information; the file
  system is the function that gives this answer for each path. \<open>os.IsNotExist\<close> holds
  of the error \<open>ENOENT\<close> only, and not of the absence of an error.
\<close>

datatype errno = ENOENT | EACCES | ENOTDIR | ELOOP | ENAMETOOLONG | EIO

datatype file_info = File | Directory | Symlink

type_synonym filesystem = "string \<Rightarrow> errno + file_info"

definition Stat :: "filesystem \<Rightarrow> string \<Rightarrow> errno + file_info" where
  "Stat fs path = fs path"

definition IsNotExist :: "errno option \<Rightarrow> bool" where
  "IsNotExist err = (case err of None \<Rightarrow> False | Some e \<Rightarrow> e = ENOENT)"

section \<open>The package \<open>xdg\<close>\<close>

definition defaultHomeBase :: string where "defaultHomeBase = ''.config''"
definition defaultCacheBase :: string where "defaultCacheBase = ''.cache''"
definition defaultDataBase :: string where "defaultDataBase = ''.local/share''"
definition defaultStateBase :: string where "defaultStateBase = ''.local/state''"
definition defaultDataDirs :: string where "defaultDataDirs = ''/usr/local/share/:/usr/share/''"
definition defaultConfigDirs :: string where "defaultConfigDirs = ''/etc/xdg''"

definition configHomeKey :: string where "configHomeKey = ''XDG_CONFIG_HOME''"
definition cacheHomeKey :: string where "cacheHomeKey = ''XDG_CACHE_HOME''"
definition dataHomeKey :: string where "dataHomeKey = ''XDG_DATA_HOME''"
definition stateHomeKey :: string where "stateHomeKey = ''XDG_STATE_HOME''"
definition runtimeDirKey :: string where "runtimeDirKey = ''XDG_RUNTIME_DIR''"
definition dataDirsKey :: string where "dataDirsKey = ''XDG_DATA_DIRS''"
definition configDirsKey :: string where "configDirsKey = ''XDG_CONFIG_DIRS''"

subsection \<open>\<open>Dir\<close>\<close>

datatype panic = IndexOutOfRange

definition exists_path :: "filesystem \<Rightarrow> string \<Rightarrow> bool" where
  "exists_path fs path =
     (let err = (case Stat fs path of Inl e \<Rightarrow> Some e | Inr info \<Rightarrow> None)
      in \<not> IsNotExist err)"

definition Exists :: "filesystem \<Rightarrow> string \<Rightarrow> bool" where
  "Exists fs d = exists_path fs d"

definition Append :: "string \<Rightarrow> string \<Rightarrow> string" where
  "Append d name = Join [d, name]"

text \<open>
  \<open>Dir.Split\<close>. The index \<open>len(p)-1\<close> is a Go \<open>int\<close>; indexing a slice outside
  \<open>0 \<le> i < len(p)\<close> panics, which is the left summand here.
\<close>

definition Split :: "string \<Rightarrow> panic + string list" where
  "Split d =
     (let p = strings_Split d Separator in
      if length p > 0 then
        (let p1 = (if length (p ! 0) = 0 then drop 1 p else p);
             i = int (length p1) - 1
         in if i < 0 \<or> int (length p1) \<le> i then Inl IndexOutOfRange
            else if length (p1 ! nat i) = 0 then Inr (take (nat i) p1)
            else Inr p1)
      else Inr p)"

text \<open>
  What the specification says of \<open>Split\<close>, in its words: the textual split on the
  separator, a leading empty segment discarded, then a trailing empty segment
  discarded, everything in between kept.
\<close>

definition Split_spec :: "string \<Rightarrow> string list" where
  "Split_spec d =
     (let p = strings_Split d Separator;
          p1 = (if p \<noteq> [] \<and> hd p = [] then tl p else p)
      in if p1 \<noteq> [] \<and> last p1 = [] then butlast p1 else p1)"

subsection \<open>The resolver\<close>

text \<open>
  \<open>DirFinder\<close> is an interface with the one method \<open>Name\<close>; \<open>dirFinder\<close> is its
  only implementation and holds the name.
\<close>

record dirFinder =
  name :: string

definition Name :: "dirFinder \<Rightarrow> string" where
  "Name df = name df"

definition NewDirFinder :: "string \<Rightarrow> dirFinder" where
  "NewDirFinder n = \<lparr>name = n\<rparr>"

record XDG =
  finder :: dirFinder

definition NewXDG :: "dirFinder \<Rightarrow> XDG" where
  "NewXDG f = \<lparr>finder = f\<rparr>"

definition newXdg :: "string \<Rightarrow> XDG" where
  "newXdg n = NewXDG (NewDirFinder n)"

definition defaultVal :: "XDG \<Rightarrow> string \<Rightarrow> string \<Rightarrow> string" where
  "defaultVal xdg home key =
     (let k = strings_ToUpper key in
      if k = configHomeKey then Join [Join [home, defaultHomeBase], Name (finder xdg)]
      else if k = cacheHomeKey then Join [Join [home, defaultCacheBase], Name (finder xdg)]
      else if k = dataHomeKey then Join [Join [home, defaultDataBase], Name (finder xdg)]
      else if k = stateHomeKey then Join [Join [home, defaultStateBase], Name (finder xdg)]
      else [])"

definition getDir :: "environ \<Rightarrow> XDG \<Rightarrow> string \<Rightarrow> string" where
  "getDir env xdg key =
     (case LookupEnv env key of
        Some val \<Rightarrow> Join [val, Name (finder xdg)]
      | None \<Rightarrow>
          if key = runtimeDirKey then []
          else (case UserHomeDir env of
                  Inl err \<Rightarrow> []
                | Inr home \<Rightarrow>
                    (let def = defaultVal xdg home key in
                     if length def > 0 then def
                     else Join [home, ''.'' @ Name (finder xdg)])))"

definition getDirs :: "environ \<Rightarrow> XDG \<Rightarrow> string \<Rightarrow> string list" where
  "getDirs env xdg key =
     (let p = (case LookupEnv env key of
                 Some v \<Rightarrow> v
               | None \<Rightarrow>
                   if key = dataDirsKey then defaultDataDirs
                   else if key = configDirsKey then defaultConfigDirs
                   else [])
      in if length p > 0
         then map (\<lambda>q. Join [q, Name (finder xdg)]) (SplitList p)
         else [])"

definition XDG_Config :: "environ \<Rightarrow> XDG \<Rightarrow> string" where
  "XDG_Config env xdg = getDir env xdg configHomeKey"
definition XDG_Cache :: "environ \<Rightarrow> XDG \<Rightarrow> string" where
  "XDG_Cache env xdg = getDir env xdg cacheHomeKey"
definition XDG_Data :: "environ \<Rightarrow> XDG \<Rightarrow> string" where
  "XDG_Data env xdg = getDir env xdg dataHomeKey"
definition XDG_State :: "environ \<Rightarrow> XDG \<Rightarrow> string" where
  "XDG_State env xdg = getDir env xdg stateHomeKey"
definition XDG_Runtime :: "environ \<Rightarrow> XDG \<Rightarrow> string" where
  "XDG_Runtime env xdg = getDir env xdg runtimeDirKey"
definition XDG_ConfigDirs :: "environ \<Rightarrow> XDG \<Rightarrow> string list" where
  "XDG_ConfigDirs env xdg = getDirs env xdg configDirsKey"
definition XDG_DataDirs :: "environ \<Rightarrow> XDG \<Rightarrow> string list" where
  "XDG_DataDirs env xdg = getDirs env xdg dataDirsKey"

text \<open>The package-level functions.\<close>

definition Config :: "environ \<Rightarrow> string \<Rightarrow> string" where
  "Config env n = XDG_Config env (newXdg n)"
definition State :: "environ \<Rightarrow> string \<Rightarrow> string" where
  "State env n = XDG_State env (newXdg n)"
definition Data :: "environ \<Rightarrow> string \<Rightarrow> string" where
  "Data env n = XDG_Data env (newXdg n)"
definition Cache :: "environ \<Rightarrow> string \<Rightarrow> string" where
  "Cache env n = XDG_Cache env (newXdg n)"
definition Runtime :: "environ \<Rightarrow> string \<Rightarrow> string" where
  "Runtime env n = XDG_Runtime env (newXdg n)"
definition ConfigDirs :: "environ \<Rightarrow> string \<Rightarrow> string list" where
  "ConfigDirs env n = XDG_ConfigDirs env (newXdg n)"
definition DataDirs :: "environ \<Rightarrow> string \<Rightarrow> string list" where
  "DataDirs env n = XDG_DataDirs env (newXdg n)"

section \<open>The elements of a path\<close>

text \<open>
  What \<open>Clean\<close> computes is stated on the elements of the path, the substrings
  between its separators. The definitions of this section belong to the proofs, not
  to the program. The state of the loop is a number \<open>k\<close> of leading \<open>..\<close> elements,
  which a path that is not rooted may keep, and the list of the real elements after
  them; \<open>render\<close> is the buffer that holds such a state and \<open>dotdot_of\<close> the index up
  to which the buffer holds the \<open>..\<close> elements.
\<close>

definition root_of :: "bool \<Rightarrow> string" where
  "root_of rooted = (if rooted then [Separator] else [])"

definition real_elem :: "string \<Rightarrow> bool" where
  "real_elem c = (c \<noteq> [] \<and> c \<noteq> ''.'' \<and> c \<noteq> ''..'' \<and> Separator \<notin> set c)"

definition render :: "bool \<Rightarrow> nat \<times> string list \<Rightarrow> string" where
  "render rooted s = root_of rooted @ strings_Join (replicate (fst s) ''..'' @ snd s) [Separator]"

definition dotdot_of :: "bool \<Rightarrow> nat \<Rightarrow> nat" where
  "dotdot_of rooted k = length (root_of rooted @ strings_Join (replicate k ''..'') [Separator])"

text \<open>One element read, on the state: the four cases of the switch.\<close>

fun norm_step :: "bool \<Rightarrow> nat \<times> string list \<Rightarrow> string \<Rightarrow> nat \<times> string list" where
  "norm_step rooted (k, R) c =
     (if c = [] \<or> c = ''.'' then (k, R)
      else if c = ''..''
        then (if R \<noteq> [] then (k, butlast R) else if rooted then (k, R) else (Suc k, R))
      else (k, R @ [c]))"

text \<open>One element read, on the buffer and the index \<open>dotdot\<close>, as \<open>clean_loop\<close> does it.\<close>

fun buf_step :: "bool \<Rightarrow> string \<times> nat \<Rightarrow> string \<Rightarrow> string \<times> nat" where
  "buf_step rooted (out, dotdot) c =
     (if c = [] \<or> c = ''.'' then (out, dotdot)
      else if c = ''..''
        then (if length out > dotdot
                then (take (backtrack out dotdot (length out - 1)) out, dotdot)
              else if \<not> rooted
                then (let out2 = (if length out > 0 then out @ [Separator] else out) @ ''..''
                      in (out2, length out2))
              else (out, dotdot))
      else ((if rooted \<and> length out \<noteq> 1 \<or> \<not> rooted \<and> length out \<noteq> 0
             then out @ [Separator] else out) @ c, dotdot))"

text \<open>
  The states the loop reaches: every element kept is a real one, and a rooted path
  keeps no \<open>..\<close> element.
\<close>

definition wf_elems :: "bool \<Rightarrow> nat \<times> string list \<Rightarrow> bool" where
  "wf_elems rooted s = ((\<forall>c \<in> set (snd s). real_elem c) \<and> (rooted \<longrightarrow> fst s = 0))"

definition dot_if_empty :: "string \<Rightarrow> string" where
  "dot_if_empty out = (if length out = 0 then ''.'' else out)"

declare norm_step.simps [simp del] buf_step.simps [simp del] Join.simps [simp del]

section \<open>Splitting and joining strings\<close>

lemma strings_Split_not_Nil: "strings_Split s sep \<noteq> []"
  by (induction s) (auto split: list.splits)

lemma strings_Split_no_sep: "sep \<notin> set s \<Longrightarrow> strings_Split s sep = [s]"
  by (induction s) auto

lemma strings_Split_append:
  "strings_Split (a @ sep # b) sep = strings_Split a sep @ strings_Split b sep"
proof (induction a)
  case Nil
  show ?case by simp
next
  case (Cons y ys)
  obtain x xs where "strings_Split ys sep = x # xs"
    using strings_Split_not_Nil [of ys sep] by (cases "strings_Split ys sep") auto
  with Cons show ?case by simp
qed

lemma strings_Split_elems: "c \<in> set (strings_Split s sep) \<Longrightarrow> sep \<notin> set c"
proof (induction s arbitrary: c)
  case Nil
  then show ?case by simp
next
  case (Cons y ys)
  obtain x xs where p: "strings_Split ys sep = x # xs"
    using strings_Split_not_Nil [of ys sep] by (cases "strings_Split ys sep") auto
  with Cons show ?case by (auto split: if_splits)
qed

lemma strings_Join_Split: "strings_Join (strings_Split s sep) [sep] = s"
proof (induction s)
  case Nil
  show ?case by simp
next
  case (Cons y ys)
  obtain x xs where p: "strings_Split ys sep = x # xs"
    using strings_Split_not_Nil [of ys sep] by (cases "strings_Split ys sep") auto
  with Cons show ?case by (cases xs) auto
qed

lemma strings_Join_snoc:
  "strings_Join (xs @ [x]) sep = (if xs = [] then x else strings_Join xs sep @ sep @ x)"
  by (induction xs sep rule: strings_Join.induct) auto

lemma strings_Join_Nil_iff:
  "\<forall>c \<in> set xs. c \<noteq> [] \<Longrightarrow> strings_Join xs sep = [] \<longleftrightarrow> xs = []"
  by (induction xs sep rule: strings_Join.induct) auto

lemma strings_Join_length_mono:
  "length (strings_Join xs sep) \<le> length (strings_Join (xs @ ys) sep)"
proof (induction ys rule: rev_induct)
  case Nil
  show ?case by simp
next
  case (snoc y ys)
  have "strings_Join (xs @ ys @ [y]) sep = strings_Join ((xs @ ys) @ [y]) sep" by simp
  also have "\<dots> = (if xs @ ys = [] then y else strings_Join (xs @ ys) sep @ sep @ y)"
    by (rule strings_Join_snoc)
  finally show ?case using snoc by (auto split: if_splits)
qed

lemma strings_Split_Join:
  "xs \<noteq> [] \<Longrightarrow> \<forall>c \<in> set xs. sep \<notin> set c \<Longrightarrow> strings_Split (strings_Join xs [sep]) sep = xs"
proof (induction xs "[sep]" rule: strings_Join.induct)
  case 1
  then show ?case by simp
next
  case (2 x)
  then show ?case by (simp add: strings_Split_no_sep)
next
  case (3 x y ys)
  then show ?case by (simp add: strings_Split_append strings_Split_no_sep)
qed

section \<open>Properties of \<open>Dir.Split\<close>\<close>

lemma strings_Split_single: "strings_Split s sep = [x] \<Longrightarrow> sep \<notin> set s \<and> x = s"
  by (induction s arbitrary: x) (auto split: list.splits if_splits simp: strings_Split_not_Nil)

text \<open>The empty path is the only one on which \<open>Split\<close> panics.\<close>

lemma Split_panics_iff: "Split d = Inl IndexOutOfRange \<longleftrightarrow> d = []"
proof
  assume "d = []"
  then show "Split d = Inl IndexOutOfRange" by (simp add: Split_def)
next
  assume a: "Split d = Inl IndexOutOfRange"
  obtain x xs where p: "strings_Split d Separator = x # xs"
    using strings_Split_not_Nil [of d Separator] by (cases "strings_Split d Separator") auto
  from a p have "x = [] \<and> xs = []"
    by (auto simp: Split_def Let_def split: if_splits)
  with p strings_Split_single [of d Separator "[]"] show "d = []" by simp
qed

text \<open>On every other path \<open>Split\<close> returns what the specification describes.\<close>

lemma Split_nonempty:
  assumes "d \<noteq> []"
  shows "Split d = Inr (Split_spec d)"
proof -
  obtain x xs where p: "strings_Split d Separator = x # xs"
    using strings_Split_not_Nil [of d Separator] by (cases "strings_Split d Separator") auto
  have ne: "\<not> (x = [] \<and> xs = [])"
    using p strings_Split_single [of d Separator "[]"] assms by auto
  show ?thesis
  proof (cases "x = []")
    case True
    with ne have "xs \<noteq> []" by simp
    then have "nat (int (length xs) - 1) = length xs - 1"
      "xs ! (length xs - 1) = last xs" "take (length xs - 1) xs = butlast xs"
      by (auto simp: last_conv_nth butlast_conv_take)
    with True p \<open>xs \<noteq> []\<close> show ?thesis
      by (simp add: Split_def Split_spec_def Let_def)
  next
    case False
    have "nat (int (length (x # xs)) - 1) = length xs" by simp
    moreover have "(x # xs) ! length xs = last (x # xs)"
      by (metis last_conv_nth length_Cons diff_Suc_1 list.distinct(1))
    moreover have "take (length xs) (x # xs) = butlast (x # xs)"
      by (metis butlast_conv_take length_Cons diff_Suc_1)
    ultimately show ?thesis using False p
      by (simp add: Split_def Split_spec_def Let_def
            del: last.simps butlast.simps nth_Cons_Suc take_Suc_Cons)
  qed
qed

lemma Split_test_path:
  "Split ''/tmp/me/.local/share/run/'' = Inr [''tmp'', ''me'', ''.local'', ''share'', ''run'']"
  by code_simp

text \<open>
  C6: \<open>Split\<close> is the textual split on the separator with one leading and one trailing
  empty segment discarded, for every path. On the empty path the description gives the
  empty list and the code panics instead.
\<close>

theorem Split_empty_not_spec: "Split_spec [] = [] \<and> Split [] \<noteq> Inr (Split_spec [])"
  by (simp add: Split_def Split_spec_def)

text \<open>
  C7: \<open>Split\<close> never indexes out of range. On the empty path the split is one empty
  segment, the leading-segment branch leaves the empty slice, and the index
  \<open>len(p)-1\<close> of the trailing-segment check is \<open>-1\<close>.
\<close>

theorem Split_empty_panics: "Split [] = Inl IndexOutOfRange"
  by (simp add: Split_def)

section \<open>What \<open>Clean\<close> computes\<close>

lemma clean_loop_Nil [simp]: "clean_loop rooted [] out dotdot = out"
  by (simp add: clean_loop.simps)

lemma clean_loop_sep: "clean_loop rooted (Separator # cs) out dotdot = clean_loop rooted cs out dotdot"
  by (simp add: clean_loop.simps IsPathSeparator_def)

text \<open>
  The loop reads one element at a time: on an element \<open>c\<close> followed by the end of
  the path or by a separator, it does to the buffer what \<open>buf_step\<close> does.
\<close>

lemma takeWhile_elem:
  "Separator \<notin> set xs \<Longrightarrow> rest = [] \<or> hd rest = Separator \<Longrightarrow>
   takeWhile (\<lambda>x. \<not> IsPathSeparator x) (xs @ rest) = xs \<and>
   dropWhile (\<lambda>x. \<not> IsPathSeparator x) (xs @ rest) = rest"
  by (induction xs) (cases rest; auto simp: IsPathSeparator_def)+

lemma clean_loop_elem:
  assumes "Separator \<notin> set c" and "rest = [] \<or> hd rest = Separator"
  shows "clean_loop rooted (c @ rest) out dotdot =
           (case buf_step rooted (out, dotdot) c of (out', dotdot') \<Rightarrow> clean_loop rooted rest out' dotdot')"
proof (cases "c = [] \<or> c = ''.'' \<or> c = ''..''")
  case True
  then show ?thesis using assms
    by (auto simp: clean_loop.simps(2) [of _ "CHR ''.''"] buf_step.simps IsPathSeparator_def Separator_def Let_def)
next
  case False
  then obtain x xs where c: "c = x # xs" by (cases c) auto
  from assms c have x: "x \<noteq> Separator" and xs: "Separator \<notin> set xs" by auto
  have c1: "IsPathSeparator x = False"
    using x by (simp add: IsPathSeparator_def)
  have c2: "(x = CHR ''.'' \<and> (xs @ rest = [] \<or> IsPathSeparator (hd (xs @ rest)))) = False"
    using False c xs by (cases xs) (auto simp: IsPathSeparator_def)
  have c3: "(x = CHR ''.'' \<and> hd (xs @ rest) = CHR ''.'' \<and>
                (tl (xs @ rest) = [] \<or> IsPathSeparator (hd (tl (xs @ rest))))) = False"
  proof (cases xs)
    case Nil
    with False c show ?thesis by auto
  next
    case (Cons y ys)
    with False c xs show ?thesis by (cases ys) (auto simp: IsPathSeparator_def)
  qed
  have lhs: "clean_loop rooted (x # (xs @ rest)) out dotdot =
      (let out1 = (if rooted \<and> length out \<noteq> 1 \<or> \<not> rooted \<and> length out \<noteq> 0
                     then out @ [Separator] else out)
         in clean_loop rooted (dropWhile (\<lambda>x. \<not> IsPathSeparator x) (xs @ rest))
              (out1 @ x # takeWhile (\<lambda>x. \<not> IsPathSeparator x) (xs @ rest)) dotdot)"
    by (subst clean_loop.simps(2)) (simp only: c1 c2 c3 if_False)
  have rhs: "buf_step rooted (out, dotdot) (x # xs) =
      ((if rooted \<and> length out \<noteq> 1 \<or> \<not> rooted \<and> length out \<noteq> 0
             then out @ [Separator] else out) @ x # xs, dotdot)"
  proof -
    have ne: "(x # xs = [] \<or> x # xs = ''.'') = False" "(x # xs = ''..'') = False"
      using False c by auto
    show ?thesis by (simp only: buf_step.simps ne if_False)
  qed
  show ?thesis
    unfolding c append_Cons lhs rhs
    by (simp add: takeWhile_elem [OF xs assms(2)] Let_def)
qed


text \<open>
  The inner loop of the \<open>..\<close> case stops at the index \<open>m\<close> when the buffer has no
  separator above \<open>m\<close> and \<open>m\<close> is either \<open>dotdot\<close> or the index of a separator. So
  it removes the last element of the buffer with the separator before it.
\<close>

lemma backtrack_stops:
  assumes "dd \<le> m" and "m \<le> w" and "\<forall>j. m < j \<and> j \<le> w \<longrightarrow> out ! j \<noteq> Separator"
    and "m = dd \<or> out ! m = Separator"
  shows "backtrack out dd w = m"
  using assms
proof (induction "w - m" arbitrary: w)
  case 0
  then have "w = m" by simp
  with 0 show ?case by (subst backtrack.simps) (auto simp: IsPathSeparator_def)
next
  case (Suc n)
  then have w: "m < w" "dd < w" "out ! w \<noteq> Separator" by auto
  have "backtrack out dd (w - 1) = m"
    using Suc by (intro Suc.hyps(1)) auto
  with w show ?case by (subst backtrack.simps) (simp add: IsPathSeparator_def)
qed


lemma backtrack_last_elem:
  assumes e: "Separator \<notin> set e" "e \<noteq> []" and dd: "dd \<le> length A"
    and s: "s = [Separator] \<or> (s = [] \<and> dd = length A)"
  shows "backtrack (A @ s @ e) dd (length (A @ s @ e) - 1) = length A"
proof (rule backtrack_stops)
  show "dd \<le> length A" by (rule dd)
  show "length A \<le> length (A @ s @ e) - 1" using e by (cases e) auto
  show "length A = dd \<or> (A @ s @ e) ! length A = Separator"
    using s by auto
  show "\<forall>j. length A < j \<and> j \<le> length (A @ s @ e) - 1 \<longrightarrow> (A @ s @ e) ! j \<noteq> Separator"
  proof (intro allI impI)
    fix j
    assume j: "length A < j \<and> j \<le> length (A @ s @ e) - 1"
    have ls: "length s \<le> 1" using s by auto
    with j have ge: "length (A @ s) \<le> j" by simp
    from j e have lt: "j - length (A @ s) < length e" by (cases e) auto
    have "(A @ s @ e) ! j = ((A @ s) @ e) ! j" by simp
    also have "\<dots> = e ! (j - length (A @ s))"
      using ge by (simp only: nth_append) simp
    finally have "(A @ s @ e) ! j \<in> set e" using lt by simp
    with e show "(A @ s @ e) ! j \<noteq> Separator" by metis
  qed
qed

text \<open>
  One step on the buffer that holds a state is the buffer that holds the next state.
\<close>

lemma real_elem_simps:
  "real_elem c \<Longrightarrow> c \<noteq> []" "real_elem c \<Longrightarrow> Separator \<notin> set c"
  "real_elem c \<Longrightarrow> c \<noteq> ''.''" "real_elem c \<Longrightarrow> c \<noteq> ''..''"
  unfolding real_elem_def by blast+

lemma elems_nonempty:
  "wf_elems rooted (k, R) \<Longrightarrow> \<forall>c \<in> set (replicate k ''..'' @ R). c \<noteq> []"
  by (auto simp: wf_elems_def dest: real_elem_simps(1))

lemma wf_elems_step:
  assumes "wf_elems rooted (k, R)" and "Separator \<notin> set c"
  shows "wf_elems rooted (norm_step rooted (k, R) c)"
  using assms by (auto simp: wf_elems_def real_elem_def norm_step.simps dest: in_set_butlastD)

lemma buf_step_render:
  assumes g: "wf_elems rooted (k, R)" and c: "Separator \<notin> set c"
  shows "buf_step rooted (render rooted (k, R), dotdot_of rooted k) c =
           (render rooted (norm_step rooted (k, R) c),
            dotdot_of rooted (fst (norm_step rooted (k, R) c)))"
proof -
  let ?P = "replicate k ''..''"
  let ?E = "?P @ R"
  let ?J = "\<lambda>xs. strings_Join xs [Separator]"
  have ne: "\<forall>c \<in> set ?E. c \<noteq> []" using g by (rule elems_nonempty)
  have Jnil: "?J ?E = [] \<longleftrightarrow> ?E = []" using ne by (rule strings_Join_Nil_iff)
  have lenout: "length (render rooted (k, R)) = length (root_of rooted) + length (?J ?E)"
    by (simp add: render_def)
  have lenroot: "length (root_of rooted) = (if rooted then 1 else 0)"
    by (simp add: root_of_def)
  consider (skip) "c = [] \<or> c = ''.''" | (up) "c = ''..''" | (elem) "real_elem c"
    using c by (auto simp: real_elem_def)
  then show ?thesis
  proof cases
    case skip
    then have cc: "(c = [] \<or> c = ''.'') = True" by simp
    show ?thesis by (simp only: norm_step.simps buf_step.simps cc if_True fst_conv)
  next
    case elem
    then have cc: "(c = [] \<or> c = ''.'') = False" "(c = ''..'') = False"
      by (auto simp: real_elem_def)
    have n: "norm_step rooted (k, R) c = (k, R @ [c])"
      by (simp only: norm_step.simps cc if_False)
    have "(if rooted \<and> length (render rooted (k, R)) \<noteq> 1 \<or> \<not> rooted \<and> length (render rooted (k, R)) \<noteq> 0
            then render rooted (k, R) @ [Separator] else render rooted (k, R)) @ c
          = render rooted (k, R @ [c])"
    proof (cases "?E = []")
      case True
      then show ?thesis by (simp add: render_def root_of_def)
    next
      case False
      then have "?J ?E \<noteq> []" using Jnil by simp
      then have "length (?J ?E) \<noteq> 0" by simp
      then have cond: "rooted \<and> length (render rooted (k, R)) \<noteq> 1 \<or> \<not> rooted \<and> length (render rooted (k, R)) \<noteq> 0"
        unfolding lenout lenroot by (cases rooted) auto
      have "?J (?E @ [c]) = ?J ?E @ [Separator] @ c"
        using False by (simp only: strings_Join_snoc if_False)
      then have "render rooted (k, R @ [c]) = render rooted (k, R) @ [Separator] @ c"
        by (simp add: render_def)
      with cond show ?thesis by simp
    qed
    then show ?thesis
      by (simp only: buf_step.simps cc if_False n fst_conv)
  next
    case up
    show ?thesis
    proof (cases "R = []")
      case False
      then obtain R' e where R: "R = R' @ [e]" by (metis rev_exhaust)
      have e: "real_elem e" using g R by (simp add: wf_elems_def)
      let ?A = "root_of rooted @ ?J (?P @ R')"
      let ?s = "if ?P @ R' = [] then [] else [Separator]"
      have out: "render rooted (k, R) = ?A @ ?s @ e"
      proof -
        have "?J ((?P @ R') @ [e]) = (if ?P @ R' = [] then e else ?J (?P @ R') @ [Separator] @ e)"
          by (rule strings_Join_snoc)
        then show ?thesis by (simp add: render_def R)
      qed
      have dd: "dotdot_of rooted k \<le> length ?A"
        using strings_Join_length_mono [of ?P "[Separator]" R'] by (simp add: dotdot_of_def)
      have s: "?s = [Separator] \<or> (?s = [] \<and> dotdot_of rooted k = length ?A)"
        by (auto simp: dotdot_of_def)
      have bt: "backtrack (?A @ ?s @ e) (dotdot_of rooted k) (length (?A @ ?s @ e) - 1) = length ?A"
        using real_elem_simps(2) [OF e] real_elem_simps(1) [OF e] dd s
        by (rule backtrack_last_elem)
      have gt: "length (render rooted (k, R)) > dotdot_of rooted k"
        using dd real_elem_simps(1) [OF e] unfolding out by (cases e) auto
      have n: "norm_step rooted (k, R) c = (k, R')"
        using up R by (simp add: norm_step.simps)
      have "buf_step rooted (render rooted (k, R), dotdot_of rooted k) c =
              (take (length ?A) (?A @ ?s @ e), dotdot_of rooted k)"
        using up gt bt unfolding out by (simp add: buf_step.simps)
      also have "take (length ?A) (?A @ ?s @ e) = render rooted (k, R')"
        by (simp add: render_def)
      finally show ?thesis by (simp only: n fst_conv)
    next
      case True
      have eq: "render rooted (k, R) = root_of rooted @ ?J ?P" by (simp add: render_def True)
      then have len: "length (render rooted (k, R)) = dotdot_of rooted k"
        by (simp add: dotdot_of_def)
      show ?thesis
      proof (cases rooted)
        case True
        have cc: "(c = [] \<or> c = ''.'') = False" "(c = ''..'') = True"
          using up by auto
        have nb: "(dotdot_of True k < length (render True (k, R))) = False"
          using len True by simp
        have nr: "(R \<noteq> []) = False" using \<open>R = []\<close> by simp
        show ?thesis
          by (simp only: norm_step.simps buf_step.simps cc nb nr True not_True_eq_False
                if_True if_False fst_conv)
      next
        case False
        have P: "?P @ [''..''] = replicate (Suc k) ''..''"
          by (simp add: replicate_append_same)
        have "?J (?P @ [''..'']) = (if ?P = [] then ''..'' else ?J ?P @ [Separator] @ ''..'')"
          by (rule strings_Join_snoc)
        moreover have "?J ?P = [] \<longleftrightarrow> ?P = []"
          by (rule strings_Join_Nil_iff) simp
        ultimately have "(if length (?J ?P) > 0 then ?J ?P @ [Separator] else ?J ?P) @ ''..''
            = ?J (replicate (Suc k) ''..'')"
          unfolding P by auto
        then have o2: "(if length (render rooted (k, R)) > 0 then render rooted (k, R) @ [Separator]
                        else render rooted (k, R)) @ ''..'' = render rooted (Suc k, [])"
          using False by (auto simp: render_def root_of_def \<open>R = []\<close> split: if_splits)
        have d2: "length (render rooted (Suc k, [])) = dotdot_of rooted (Suc k)"
          by (simp add: render_def dotdot_of_def)
        have n: "norm_step rooted (k, R) c = (Suc k, [])"
          using up \<open>R = []\<close> False by (simp add: norm_step.simps)
        have cc: "(c = [] \<or> c = ''.'') = False" "(c = ''..'') = True"
          using up by auto
        have nb: "(dotdot_of rooted k < length (render rooted (k, R))) = False"
          using len by simp
        have nr: "(\<not> rooted) = True" using False by simp
        have "buf_step rooted (render rooted (k, R), dotdot_of rooted k) c
            = (let out2 = (if length (render rooted (k, R)) > 0 then render rooted (k, R) @ [Separator]
                        else render rooted (k, R)) @ ''..'' in (out2, length out2))"
          by (simp only: buf_step.simps cc nb nr if_True if_False)
        then show ?thesis by (simp only: Let_def o2 n d2 fst_conv)
      qed
    qed
  qed
qed


text \<open>
  So \<open>Clean\<close> of a non-empty path folds \<open>norm_step\<close> over the elements of the path
  and writes the state out, with \<open>.\<close> for the empty buffer.
\<close>

lemma clean_loop_render:
  assumes "wf_elems rooted s" and "\<forall>c \<in> set cs. Separator \<notin> set c"
  shows "clean_loop rooted (strings_Join cs [Separator]) (render rooted s) (dotdot_of rooted (fst s))
           = render rooted (foldl (norm_step rooted) s cs)"
  using assms
proof (induction cs arbitrary: s)
  case Nil
  show ?case by simp
next
  case (Cons c cs)
  obtain k R where s: "s = (k, R)" by (cases s)
  have c: "Separator \<notin> set c" using Cons.prems(2) by simp
  have g: "wf_elems rooted (norm_step rooted s c)"
    using Cons.prems(1) c unfolding s by (rule wf_elems_step)
  have b: "buf_step rooted (render rooted s, dotdot_of rooted (fst s)) c =
             (render rooted (norm_step rooted s c), dotdot_of rooted (fst (norm_step rooted s c)))"
    using buf_step_render [OF Cons.prems(1) [unfolded s] c] by (simp add: s)
  show ?case
  proof (cases cs)
    case Nil
    have "clean_loop rooted (c @ []) (render rooted s) (dotdot_of rooted (fst s))
            = render rooted (norm_step rooted s c)"
      by (subst clean_loop_elem [OF c]) (simp_all add: b)
    with Nil show ?thesis by simp
  next
    case (Cons y ys)
    have "clean_loop rooted (c @ Separator # strings_Join cs [Separator])
              (render rooted s) (dotdot_of rooted (fst s))
            = clean_loop rooted (strings_Join cs [Separator])
                (render rooted (norm_step rooted s c)) (dotdot_of rooted (fst (norm_step rooted s c)))"
      by (subst clean_loop_elem [OF c]) (simp_all add: b clean_loop_sep)
    also have "\<dots> = render rooted (foldl (norm_step rooted) (norm_step rooted s c) cs)"
      using g Cons.prems(2) by (intro Cons.IH) simp_all
    finally show ?thesis using Cons by simp
  qed
qed

lemma wf_elems_foldl:
  "wf_elems rooted s \<Longrightarrow> \<forall>c \<in> set cs. Separator \<notin> set c \<Longrightarrow> wf_elems rooted (foldl (norm_step rooted) s cs)"
proof (induction cs arbitrary: s)
  case Nil
  then show ?case by simp
next
  case (Cons c cs)
  obtain k R where s: "s = (k, R)" by (cases s)
  have "wf_elems rooted (norm_step rooted s c)"
    using Cons.prems unfolding s by (intro wf_elems_step) simp_all
  with Cons show ?case by simp
qed

lemma wf_elems_init: "wf_elems rooted (0, [])"
  by (simp add: wf_elems_def)

lemma Clean_elems:
  assumes "p \<noteq> []"
  shows "Clean p = dot_if_empty (render (IsPathSeparator (hd p))
                     (foldl (norm_step (IsPathSeparator (hd p))) (0, []) (strings_Split p Separator)))"
proof -
  obtain x xs where p: "p = x # xs" using assms by (cases p) auto
  have el: "\<forall>c \<in> set (strings_Split q Separator). Separator \<notin> set c" for q
    using strings_Split_elems by blast
  show ?thesis
  proof (cases "IsPathSeparator x")
    case True
    then have x: "x = Separator" by (simp add: IsPathSeparator_def)
    have "clean_loop True (strings_Join (strings_Split xs Separator) [Separator])
             (render True (0, [])) (dotdot_of True (fst (0::nat, [] :: string list)))
          = render True (foldl (norm_step True) (0, []) (strings_Split xs Separator))"
      using wf_elems_init el by (rule clean_loop_render)
    then have "clean_loop True xs [Separator] 1
          = render True (foldl (norm_step True) (0, []) (strings_Split xs Separator))"
      by (simp add: strings_Join_Split render_def dotdot_of_def root_of_def)
    moreover have "strings_Split p Separator = [] # strings_Split xs Separator"
      by (simp add: p x)
    moreover have "norm_step True (0, []) [] = (0, [])" by (simp add: norm_step.simps)
    ultimately show ?thesis using True by (simp add: Clean_def p dot_if_empty_def Let_def)
  next
    case False
    have "clean_loop False (strings_Join (strings_Split p Separator) [Separator])
             (render False (0, [])) (dotdot_of False (fst (0::nat, [] :: string list)))
          = render False (foldl (norm_step False) (0, []) (strings_Split p Separator))"
      using wf_elems_init el by (rule clean_loop_render)
    then have "clean_loop False p [] 0
          = render False (foldl (norm_step False) (0, []) (strings_Split p Separator))"
      by (simp add: strings_Join_Split render_def dotdot_of_def root_of_def)
    moreover have "IsPathSeparator (hd p) = False" using False by (simp add: p)
    ultimately show ?thesis using assms by (simp add: Clean_def dot_if_empty_def Let_def)
  qed
qed

text \<open>
  Reading a cleaned path again gives back the state it was written from. Hence
  cleaning a path before more elements are appended to it changes nothing, and so the
  join of a join with one more element is the join of the three elements.
\<close>

lemma foldl_dotdots:
  "\<not> rooted \<Longrightarrow> foldl (norm_step rooted) (j, []) (replicate k ''..'') = (j + k, [])"
  by (induction k arbitrary: j) (simp_all add: norm_step.simps)

lemma foldl_reals:
  "\<forall>c \<in> set R. real_elem c \<Longrightarrow> foldl (norm_step rooted) (k, R0) R = (k, R0 @ R)"
proof (induction R arbitrary: R0)
  case Nil
  show ?case by simp
next
  case (Cons c R)
  then have "real_elem c" by simp
  then have cc: "(c = [] \<or> c = ''.'') = False" "(c = ''..'') = False"
    using real_elem_simps [of c] by blast+
  have "norm_step rooted (k, R0) c = (k, R0 @ [c])"
    by (simp only: norm_step.simps cc if_False)
  with Cons show ?case by simp
qed

lemma foldl_elems:
  assumes "wf_elems rooted (k, R)"
  shows "foldl (norm_step rooted) (0, []) (replicate k ''..'' @ R) = (k, R)"
proof -
  have r: "\<forall>c \<in> set R. real_elem c" using assms by (simp add: wf_elems_def)
  have "foldl (norm_step rooted) (0, []) (replicate k ''..'') = (k, [])"
  proof (cases rooted)
    case True
    with assms have "k = 0" by (simp add: wf_elems_def)
    then show ?thesis by simp
  next
    case False
    then show ?thesis using foldl_dotdots [of rooted 0 k] by simp
  qed
  then show ?thesis using foldl_reals [OF r, of rooted k "[]"] by simp
qed


lemma strings_Join_hd:
  "xs \<noteq> [] \<Longrightarrow> hd xs \<noteq> [] \<Longrightarrow> hd (strings_Join xs sep) = hd (hd xs)"
  by (induction xs sep rule: strings_Join.induct) auto

lemma elems_no_sep:
  "wf_elems rooted (k, R) \<Longrightarrow> \<forall>c \<in> set (replicate k ''..'' @ R). Separator \<notin> set c"
proof -
  assume g: "wf_elems rooted (k, R)"
  have "Separator \<notin> set ''..''" by (simp add: Separator_def)
  then show ?thesis using g by (auto simp: wf_elems_def dest: real_elem_simps(2))
qed

lemma Clean_reparse:
  assumes g: "wf_elems rooted (k, R)"
  defines "y \<equiv> dot_if_empty (render rooted (k, R))"
  shows "y \<noteq> []" and "IsPathSeparator (hd y) = rooted"
    and "foldl (norm_step rooted) (0, []) (strings_Split y Separator) = (k, R)"
proof -
  let ?E = "replicate k ''..'' @ R"
  let ?J = "strings_Join ?E [Separator]"
  have ne: "\<forall>c \<in> set ?E. c \<noteq> []" using g by (rule elems_nonempty)
  have ns: "\<forall>c \<in> set ?E. Separator \<notin> set c" using g by (rule elems_no_sep)
  have Jnil: "?J = [] \<longleftrightarrow> ?E = []" using ne by (rule strings_Join_Nil_iff)
  have fe: "foldl (norm_step rooted) (0, []) ?E = (k, R)" using g by (rule foldl_elems)
  have skip: "norm_step r (0, []) [] = (0, [])" "norm_step r (0, []) ''.'' = (0, [])" for r
    by (simp_all add: norm_step.simps)
  have "y \<noteq> [] \<and> IsPathSeparator (hd y) = rooted \<and>
        foldl (norm_step rooted) (0, []) (strings_Split y Separator) = (k, R)"
  proof (cases "?E = []")
    case True
    then have kR: "k = 0" "R = []" by simp_all
    show ?thesis
    proof (cases rooted)
      case True
      then have "y = [Separator]" by (simp add: y_def dot_if_empty_def render_def root_of_def kR)
      then show ?thesis using True by (simp add: IsPathSeparator_def skip kR)
    next
      case False
      then have "y = ''.''" by (simp add: y_def dot_if_empty_def render_def root_of_def kR)
      then show ?thesis using False by (simp add: IsPathSeparator_def Separator_def skip kR)
    qed
  next
    case False
    then have Jne: "?J \<noteq> []" using Jnil by simp
    have sp: "strings_Split ?J Separator = ?E" using False ns by (rule strings_Split_Join)
    have hdE: "hd ?E \<in> set ?E" using False by (rule hd_in_set)
    show ?thesis
    proof (cases rooted)
      case True
      then have y: "y = Separator # ?J" by (simp add: y_def dot_if_empty_def render_def root_of_def)
      have "strings_Split y Separator = [] # ?E" by (simp add: y sp)
      then show ?thesis using True fe by (simp add: y IsPathSeparator_def skip)
    next
      case False
      then have y: "y = ?J" using Jne by (simp add: y_def dot_if_empty_def render_def root_of_def)
      have "hd ?J = hd (hd ?E)"
        using \<open>?E \<noteq> []\<close> hdE ne by (intro strings_Join_hd) blast+
      moreover have "hd (hd ?E) \<in> set (hd ?E)" using hdE ne by (intro hd_in_set) blast
      ultimately have "hd ?J \<noteq> Separator" using hdE ns by metis
      then show ?thesis using False fe Jne by (simp add: y sp IsPathSeparator_def)
    qed
  qed
  then show "y \<noteq> []" and "IsPathSeparator (hd y) = rooted"
    and "foldl (norm_step rooted) (0, []) (strings_Split y Separator) = (k, R)"
    by simp_all
qed

lemma Clean_Clean_append:
  assumes "x \<noteq> []"
  shows "Clean (Clean x @ Separator # c) = Clean (x @ Separator # c)"
proof -
  let ?r = "IsPathSeparator (hd x)"
  let ?S = "foldl (norm_step ?r) (0, []) (strings_Split x Separator)"
  obtain k R where S: "?S = (k, R)" by (cases ?S)
  have g: "wf_elems ?r (k, R)"
    using wf_elems_foldl [OF wf_elems_init, of "strings_Split x Separator" ?r] strings_Split_elems S
    by metis
  have cx: "Clean x = dot_if_empty (render ?r (k, R))"
    using Clean_elems [OF assms] S by simp
  have y1: "Clean x \<noteq> []" and y2: "IsPathSeparator (hd (Clean x)) = ?r"
    and y3: "foldl (norm_step ?r) (0, []) (strings_Split (Clean x) Separator) = (k, R)"
    unfolding cx using Clean_reparse [OF g] by simp_all
  have "Clean (Clean x @ Separator # c)
      = dot_if_empty (render ?r (foldl (norm_step ?r) (0, []) (strings_Split (Clean x @ Separator # c) Separator)))"
    using Clean_elems [of "Clean x @ Separator # c"] y1 y2 by simp
  also have "\<dots> = dot_if_empty (render ?r (foldl (norm_step ?r) (k, R) (strings_Split c Separator)))"
    by (simp add: strings_Split_append y3)
  also have "\<dots> = dot_if_empty (render ?r (foldl (norm_step ?r) (0, []) (strings_Split (x @ Separator # c) Separator)))"
    by (simp add: strings_Split_append S)
  also have "\<dots> = Clean (x @ Separator # c)"
    using Clean_elems [of "x @ Separator # c"] assms by simp
  finally show ?thesis .
qed

lemma Clean_not_Nil: "Clean p \<noteq> []"
  by (simp add: Clean_def Let_def)

lemma Join_nested:
  "Join [Join [p, a], b] = Join [p, a, b]"
proof (cases "p = []")
  case True
  show ?thesis
  proof (cases "a = []")
    case True
    with \<open>p = []\<close> show ?thesis by (simp add: Join.simps)
  next
    case False
    with \<open>p = []\<close> show ?thesis
      using Clean_Clean_append [of a b] by (simp add: Clean_not_Nil Join.simps)
  qed
next
  case False
  then show ?thesis
    using Clean_Clean_append [of "p @ Separator # a" b] by (simp add: Clean_not_Nil Join.simps)
qed


lemma Join_not_Nil: "e \<in> set es \<Longrightarrow> e \<noteq> [] \<Longrightarrow> Join es \<noteq> []"
  by (induction es) (auto simp: Clean_not_Nil Join.simps)

section \<open>The resolver\<close>

lemma Name_newXdg: "Name (finder (newXdg n)) = n"
  by (simp add: newXdg_def NewXDG_def NewDirFinder_def Name_def)

text \<open>
  C1: for each of the five single-path roles, when the role's variable is set to a
  value \<open>V\<close>, the empty string included, the resolver returns \<open>V\<close> joined with
  the application name, whatever \<open>V\<close> and the rest of the environment are.
\<close>

theorem getDir_env_set:
  "(env configHomeKey = Some V \<longrightarrow> XDG_Config env xdg = Join [V, Name (finder xdg)]) \<and>
   (env cacheHomeKey = Some V \<longrightarrow> XDG_Cache env xdg = Join [V, Name (finder xdg)]) \<and>
   (env dataHomeKey = Some V \<longrightarrow> XDG_Data env xdg = Join [V, Name (finder xdg)]) \<and>
   (env stateHomeKey = Some V \<longrightarrow> XDG_State env xdg = Join [V, Name (finder xdg)]) \<and>
   (env runtimeDirKey = Some V \<longrightarrow> XDG_Runtime env xdg = Join [V, Name (finder xdg)])"
  by (simp add: XDG_Config_def XDG_Cache_def XDG_Data_def XDG_State_def XDG_Runtime_def
        getDir_def LookupEnv_def)

theorem getDir_env_set_witness:
  "XDG_Config (\<lambda>k. if k = configHomeKey then Some ''/h/t/.conf'' else None) (newXdg ''go-xdg-test'')
     = ''/h/t/.conf/go-xdg-test'' \<and>
   XDG_Cache (\<lambda>k. Some []) (newXdg ''go-xdg-test'') = ''go-xdg-test'' \<and>
   XDG_Data (\<lambda>k. Some []) (newXdg ''go-xdg-test'') = ''go-xdg-test'' \<and>
   XDG_State (\<lambda>k. Some []) (newXdg ''go-xdg-test'') = ''go-xdg-test'' \<and>
   XDG_Runtime (\<lambda>k. Some []) (newXdg ''go-xdg-test'') = ''go-xdg-test''"
proof -
  have j: "Join [''/h/t/.conf'', ''go-xdg-test''] = ''/h/t/.conf/go-xdg-test''"
    "Join ['''', ''go-xdg-test''] = ''go-xdg-test''"
    by code_simp+
  show ?thesis
    using getDir_env_set [of "\<lambda>k. if k = configHomeKey then Some ''/h/t/.conf'' else None"
        "''/h/t/.conf''" "newXdg ''go-xdg-test''"]
      getDir_env_set [of "\<lambda>k. Some []" "[]" "newXdg ''go-xdg-test''"]
    by (simp add: j Name_newXdg)
qed

text \<open>
  The default of a home-based role: the variable unset, the home directory \<open>H\<close>, and
  \<open>defaultVal\<close> on the branch of the base.
\<close>

lemma ToUpper_keys:
  "strings_ToUpper ''XDG_CONFIG_HOME'' = ''XDG_CONFIG_HOME''"
  "strings_ToUpper ''XDG_CACHE_HOME'' = ''XDG_CACHE_HOME''"
  "strings_ToUpper ''XDG_DATA_HOME'' = ''XDG_DATA_HOME''"
  "strings_ToUpper ''XDG_STATE_HOME'' = ''XDG_STATE_HOME''"
  by code_simp+

lemma getDir_default:
  assumes "env key = None" and "key \<noteq> runtimeDirKey" and "UserHomeDir env = Inr H"
    and "defaultVal xdg H key = Join [Join [H, base], Name (finder xdg)]" and "base \<noteq> []"
  shows "getDir env xdg key = Join [H, base, Name (finder xdg)]"
proof -
  have "base \<in> set [H, base]" by simp
  then have "Join [H, base] \<noteq> []" using assms(5) by (rule Join_not_Nil)
  moreover have "Join [H, base] \<in> set [Join [H, base], Name (finder xdg)]" by simp
  ultimately have "Join [Join [H, base], Name (finder xdg)] \<noteq> []"
    by (rule Join_not_Nil [rotated])
  then have len: "length (defaultVal xdg H key) > 0"
    by (simp only: assms(4) length_greater_0_conv not_False_eq_True)
  have "getDir env xdg key = defaultVal xdg H key"
    unfolding getDir_def LookupEnv_def Let_def assms(1) assms(3) using assms(2) len by simp
  then show ?thesis by (simp only: assms(4) Join_nested)
qed

text \<open>
  C2: for each of the four home-based roles, when the role's variable is unset and
  the home directory resolves to \<open>H\<close>, the resolver returns the join of \<open>H\<close>, the
  role's default base (\<open>.config\<close>, \<open>.cache\<close>, \<open>.local/share\<close>, \<open>.local/state\<close>) and
  the application name.
\<close>

theorem getDir_home_default:
  "(env configHomeKey = None \<and> UserHomeDir env = Inr H \<longrightarrow>
      XDG_Config env xdg = Join [H, ''.config'', Name (finder xdg)]) \<and>
   (env cacheHomeKey = None \<and> UserHomeDir env = Inr H \<longrightarrow>
      XDG_Cache env xdg = Join [H, ''.cache'', Name (finder xdg)]) \<and>
   (env dataHomeKey = None \<and> UserHomeDir env = Inr H \<longrightarrow>
      XDG_Data env xdg = Join [H, ''.local/share'', Name (finder xdg)]) \<and>
   (env stateHomeKey = None \<and> UserHomeDir env = Inr H \<longrightarrow>
      XDG_State env xdg = Join [H, ''.local/state'', Name (finder xdg)])"
proof -
  have d: "defaultVal xdg H configHomeKey = Join [Join [H, ''.config''], Name (finder xdg)]"
    "defaultVal xdg H cacheHomeKey = Join [Join [H, ''.cache''], Name (finder xdg)]"
    "defaultVal xdg H dataHomeKey = Join [Join [H, ''.local/share''], Name (finder xdg)]"
    "defaultVal xdg H stateHomeKey = Join [Join [H, ''.local/state''], Name (finder xdg)]"
    by (simp_all add: defaultVal_def ToUpper_keys defaultHomeBase_def defaultCacheBase_def
          defaultDataBase_def defaultStateBase_def configHomeKey_def cacheHomeKey_def
          dataHomeKey_def stateHomeKey_def)
  have r: "configHomeKey \<noteq> runtimeDirKey" "cacheHomeKey \<noteq> runtimeDirKey"
    "dataHomeKey \<noteq> runtimeDirKey" "stateHomeKey \<noteq> runtimeDirKey"
    by (simp_all add: configHomeKey_def cacheHomeKey_def dataHomeKey_def stateHomeKey_def
          runtimeDirKey_def)
  show ?thesis
    unfolding XDG_Config_def XDG_Cache_def XDG_Data_def XDG_State_def
    using getDir_default [OF _ r(1) _ d(1)] getDir_default [OF _ r(2) _ d(2)]
      getDir_default [OF _ r(3) _ d(3)] getDir_default [OF _ r(4) _ d(4)]
    by simp
qed

theorem getDir_home_default_witness:
  "UserHomeDir [''HOME'' \<mapsto> ''/home/t''] = Inr ''/home/t'' \<and>
   XDG_Config [''HOME'' \<mapsto> ''/home/t''] (newXdg ''go-xdg-test'') = ''/home/t/.config/go-xdg-test'' \<and>
   XDG_Cache [''HOME'' \<mapsto> ''/home/t''] (newXdg ''go-xdg-test'') = ''/home/t/.cache/go-xdg-test'' \<and>
   XDG_Data [''HOME'' \<mapsto> ''/home/t''] (newXdg ''go-xdg-test'') = ''/home/t/.local/share/go-xdg-test'' \<and>
   XDG_State [''HOME'' \<mapsto> ''/home/t''] (newXdg ''go-xdg-test'') = ''/home/t/.local/state/go-xdg-test''"
proof -
  have h: "UserHomeDir [''HOME'' \<mapsto> ''/home/t''] = Inr ''/home/t''"
    by (simp add: UserHomeDir_def Getenv_def)
  have e: "[''HOME'' \<mapsto> ''/home/t''] configHomeKey = None"
    "[''HOME'' \<mapsto> ''/home/t''] cacheHomeKey = None"
    "[''HOME'' \<mapsto> ''/home/t''] dataHomeKey = None"
    "[''HOME'' \<mapsto> ''/home/t''] stateHomeKey = None"
    by (simp_all add: configHomeKey_def cacheHomeKey_def dataHomeKey_def stateHomeKey_def)
  have j: "Join [''/home/t'', ''.config'', ''go-xdg-test''] = ''/home/t/.config/go-xdg-test''"
    "Join [''/home/t'', ''.cache'', ''go-xdg-test''] = ''/home/t/.cache/go-xdg-test''"
    "Join [''/home/t'', ''.local/share'', ''go-xdg-test''] = ''/home/t/.local/share/go-xdg-test''"
    "Join [''/home/t'', ''.local/state'', ''go-xdg-test''] = ''/home/t/.local/state/go-xdg-test''"
    by code_simp+
  show ?thesis
    using getDir_home_default [of "[''HOME'' \<mapsto> ''/home/t'']" "''/home/t''" "newXdg ''go-xdg-test''"]
      h e
    by (simp add: j Name_newXdg)
qed

text \<open>
  C3: a resolution that fails gives the empty string and no error. The runtime
  directory with its variable unset is empty for every environment, with or without
  a home directory; a home-based role with its variable unset and no home directory
  is empty.
\<close>

theorem resolution_failure_empty:
  "(env runtimeDirKey = None \<longrightarrow> XDG_Runtime env xdg = []) \<and>
   (env configHomeKey = None \<and> UserHomeDir env = Inl e \<longrightarrow> XDG_Config env xdg = []) \<and>
   (env cacheHomeKey = None \<and> UserHomeDir env = Inl e \<longrightarrow> XDG_Cache env xdg = []) \<and>
   (env dataHomeKey = None \<and> UserHomeDir env = Inl e \<longrightarrow> XDG_Data env xdg = []) \<and>
   (env stateHomeKey = None \<and> UserHomeDir env = Inl e \<longrightarrow> XDG_State env xdg = [])"
  by (simp add: XDG_Config_def XDG_Cache_def XDG_Data_def XDG_State_def XDG_Runtime_def
        getDir_def LookupEnv_def)

theorem resolution_failure_empty_witness:
  "XDG_Runtime Map.empty (newXdg ''go-xdg-test'') = [] \<and>
   XDG_Runtime [''HOME'' \<mapsto> ''/home/t''] (newXdg ''go-xdg-test'') = [] \<and>
   UserHomeDir Map.empty = Inl HomeNotDefined \<and>
   XDG_Config Map.empty (newXdg ''go-xdg-test'') = [] \<and>
   XDG_Cache Map.empty (newXdg ''go-xdg-test'') = [] \<and>
   XDG_Data Map.empty (newXdg ''go-xdg-test'') = [] \<and>
   XDG_State Map.empty (newXdg ''go-xdg-test'') = []"
proof -
  have h: "UserHomeDir Map.empty = Inl HomeNotDefined"
    by (simp add: UserHomeDir_def Getenv_def)
  have r: "[''HOME'' \<mapsto> ''/home/t''] runtimeDirKey = None"
    by (simp add: runtimeDirKey_def)
  show ?thesis
    using resolution_failure_empty [of Map.empty "newXdg ''go-xdg-test''" HomeNotDefined]
      resolution_failure_empty [of "[''HOME'' \<mapsto> ''/home/t'']" "newXdg ''go-xdg-test''" HomeNotDefined]
      h r
    by simp
qed

text \<open>
  C4: for the two search-path roles, a variable set to a non-empty value is split at
  the colons and the application name is joined onto every entry, in order, so that
  \<open>A:B\<close> gives the join of \<open>A\<close> and of \<open>B\<close> with the name; a variable set to the
  empty string gives the empty list.
\<close>

theorem getDirs_env_set:
  "(env configDirsKey = Some V \<and> V \<noteq> [] \<longrightarrow>
      XDG_ConfigDirs env xdg = map (\<lambda>q. Join [q, Name (finder xdg)]) (strings_Split V ListSeparator)) \<and>
   (env dataDirsKey = Some V \<and> V \<noteq> [] \<longrightarrow>
      XDG_DataDirs env xdg = map (\<lambda>q. Join [q, Name (finder xdg)]) (strings_Split V ListSeparator)) \<and>
   (env configDirsKey = Some (A @ '':'' @ B) \<and> CHR '':'' \<notin> set A \<and> CHR '':'' \<notin> set B \<longrightarrow>
      XDG_ConfigDirs env xdg = [Join [A, Name (finder xdg)], Join [B, Name (finder xdg)]]) \<and>
   (env dataDirsKey = Some (A @ '':'' @ B) \<and> CHR '':'' \<notin> set A \<and> CHR '':'' \<notin> set B \<longrightarrow>
      XDG_DataDirs env xdg = [Join [A, Name (finder xdg)], Join [B, Name (finder xdg)]]) \<and>
   (env configDirsKey = Some [] \<longrightarrow> XDG_ConfigDirs env xdg = []) \<and>
   (env dataDirsKey = Some [] \<longrightarrow> XDG_DataDirs env xdg = [])"
  by (simp add: XDG_ConfigDirs_def XDG_DataDirs_def getDirs_def LookupEnv_def SplitList_def
        ListSeparator_def strings_Split_append strings_Split_no_sep)

theorem getDirs_env_set_witness:
  "XDG_DataDirs (\<lambda>k. Some ''/h/t/.local/share/datas:/xdg-data'') (newXdg ''go-xdg-test'')
     = [''/h/t/.local/share/datas/go-xdg-test'', ''/xdg-data/go-xdg-test''] \<and>
   XDG_ConfigDirs (\<lambda>k. Some ''/h/t/.local/share/datas:/xdg-data'') (newXdg ''go-xdg-test'')
     = [''/h/t/.local/share/datas/go-xdg-test'', ''/xdg-data/go-xdg-test''] \<and>
   XDG_DataDirs (\<lambda>k. Some []) (newXdg ''go-xdg-test'') = [] \<and>
   XDG_ConfigDirs (\<lambda>k. Some []) (newXdg ''go-xdg-test'') = []"
proof -
  have j: "Join [''/h/t/.local/share/datas'', ''go-xdg-test''] = ''/h/t/.local/share/datas/go-xdg-test''"
    "Join [''/xdg-data'', ''go-xdg-test''] = ''/xdg-data/go-xdg-test''"
    by code_simp+
  show ?thesis
    using getDirs_env_set [of "\<lambda>k. Some ''/h/t/.local/share/datas:/xdg-data''"
        "''/h/t/.local/share/datas:/xdg-data''" "newXdg ''go-xdg-test''"
        "''/h/t/.local/share/datas''" "''/xdg-data''"]
      getDirs_env_set [of "\<lambda>k. Some []" "[]" "newXdg ''go-xdg-test''"]
    by (simp add: j Name_newXdg ListSeparator_def)
qed

text \<open>
  C5: for the two search-path roles with the variable unset, the default list
  (\<open>/etc/xdg\<close> for the configuration directories, \<open>/usr/local/share/\<close> and
  \<open>/usr/share/\<close> for the data directories) gets the application name joined onto
  every entry, in order; for the name \<open>go-xdg-test\<close> these are the paths of the test.
\<close>

theorem getDirs_env_unset:
  "(env configDirsKey = None \<longrightarrow>
      XDG_ConfigDirs env xdg = map (\<lambda>q. Join [q, Name (finder xdg)]) [''/etc/xdg'']) \<and>
   (env dataDirsKey = None \<longrightarrow>
      XDG_DataDirs env xdg =
        map (\<lambda>q. Join [q, Name (finder xdg)]) [''/usr/local/share/'', ''/usr/share/'']) \<and>
   (env configDirsKey = None \<longrightarrow> ConfigDirs env ''go-xdg-test'' = [''/etc/xdg/go-xdg-test'']) \<and>
   (env dataDirsKey = None \<longrightarrow>
      DataDirs env ''go-xdg-test'' = [''/usr/local/share/go-xdg-test'', ''/usr/share/go-xdg-test''])"
proof -
  have s1: "SplitList defaultConfigDirs = [''/etc/xdg'']" by code_simp
  have s2: "SplitList defaultDataDirs = [''/usr/local/share/'', ''/usr/share/'']" by code_simp
  have n1: "defaultConfigDirs \<noteq> []" "defaultDataDirs \<noteq> []"
    by (simp_all add: defaultConfigDirs_def defaultDataDirs_def)
  have k: "configDirsKey \<noteq> dataDirsKey" by (simp add: configDirsKey_def dataDirsKey_def)
  have j1: "Join [''/etc/xdg'', ''go-xdg-test''] = ''/etc/xdg/go-xdg-test''" by code_simp
  have j2: "Join [''/usr/local/share/'', ''go-xdg-test''] = ''/usr/local/share/go-xdg-test''"
    by code_simp
  have j3: "Join [''/usr/share/'', ''go-xdg-test''] = ''/usr/share/go-xdg-test''" by code_simp
  show ?thesis
    using n1 k
    by (simp add: ConfigDirs_def DataDirs_def XDG_ConfigDirs_def XDG_DataDirs_def getDirs_def
          LookupEnv_def s1 s2 j1 j2 j3 Name_newXdg)
qed

theorem getDirs_env_unset_witness:
  "ConfigDirs Map.empty ''go-xdg-test'' = [''/etc/xdg/go-xdg-test''] \<and>
   DataDirs Map.empty ''go-xdg-test'' = [''/usr/local/share/go-xdg-test'', ''/usr/share/go-xdg-test'']"
  using getDirs_env_unset [of Map.empty] by simp

text \<open>
  C10: each package-level function gives, for every name and every environment, what
  the method of the same role gives on a resolver bound to that name.
\<close>

theorem convenience_eq:
  assumes "Name (finder xdg) = n"
  shows "Config env n = XDG_Config env xdg \<and> Cache env n = XDG_Cache env xdg \<and>
     Data env n = XDG_Data env xdg \<and> State env n = XDG_State env xdg \<and>
     Runtime env n = XDG_Runtime env xdg \<and> ConfigDirs env n = XDG_ConfigDirs env xdg \<and>
     DataDirs env n = XDG_DataDirs env xdg"
proof -
  have "xdg = newXdg n"
    using assms
    by (cases xdg, cases "finder xdg") (simp add: newXdg_def NewXDG_def NewDirFinder_def Name_def)
  then show ?thesis
    by (simp add: Config_def Cache_def Data_def State_def Runtime_def ConfigDirs_def DataDirs_def)
qed

theorem convenience_eq_witness:
  "Name (finder (NewXDG (NewDirFinder ''go-xdg-test''))) = ''go-xdg-test'' \<and>
   Config [''HOME'' \<mapsto> ''/home/t''] ''go-xdg-test''
     = XDG_Config [''HOME'' \<mapsto> ''/home/t''] (NewXDG (NewDirFinder ''go-xdg-test'')) \<and>
   DataDirs [''HOME'' \<mapsto> ''/home/t''] ''go-xdg-test''
     = XDG_DataDirs [''HOME'' \<mapsto> ''/home/t''] (NewXDG (NewDirFinder ''go-xdg-test''))"
proof -
  have n: "Name (finder (NewXDG (NewDirFinder ''go-xdg-test''))) = ''go-xdg-test''"
    by (simp add: NewXDG_def NewDirFinder_def Name_def)
  show ?thesis
    using convenience_eq [OF n, of "[''HOME'' \<mapsto> ''/home/t'']"] n by simp
qed

section \<open>\<open>Dir.Append\<close> and \<open>Dir.Exists\<close>\<close>

text \<open>
  C8: \<open>Append\<close> is a function of the path and the segment alone, with no file system
  among its arguments, and appending \<open>a\<close> and then \<open>b\<close> to a path \<open>p\<close> is the join
  of \<open>p\<close>, \<open>a\<close> and \<open>b\<close>; this holds for every \<open>p\<close> and for every two segments.
\<close>

theorem Append_Append: "Append (Append p a) b = Join [p, a, b]"
  unfolding Append_def by (rule Join_nested)

theorem Append_Append_witness:
  "Append (Append ''/tmp/me/.local/share/run/'' ''a'') ''b'' = ''/tmp/me/.local/share/run/a/b''"
proof -
  have "Join [''/tmp/me/.local/share/run/'', ''a'', ''b''] = ''/tmp/me/.local/share/run/a/b''"
    by code_simp
  then show ?thesis
    using Append_Append [of "''/tmp/me/.local/share/run/''" "''a''" "''b''"] by simp
qed

text \<open>
  C9: \<open>Exists\<close> is false exactly when \<open>Stat\<close> answers \<open>ENOENT\<close>; it is true when
  \<open>Stat\<close> succeeds and when \<open>Stat\<close> fails with any other error. Its result is a
  truth value in every case.
\<close>

theorem Exists_iff:
  "(Exists fs d = False \<longleftrightarrow> Stat fs d = Inl ENOENT) \<and>
   ((\<exists>info. Stat fs d = Inr info) \<longrightarrow> Exists fs d = True) \<and>
   ((\<exists>e. Stat fs d = Inl e \<and> e \<noteq> ENOENT) \<longrightarrow> Exists fs d = True)"
  by (auto simp: Exists_def exists_path_def IsNotExist_def split: sum.splits)

theorem Exists_iff_witness:
  "Exists (\<lambda>p. if p = ''/tmp/me'' then Inr Directory
               else if p = ''/root/x'' then Inl EACCES else Inl ENOENT) ''/tmp/me'' = True \<and>
   Exists (\<lambda>p. if p = ''/tmp/me'' then Inr Directory
               else if p = ''/root/x'' then Inl EACCES else Inl ENOENT) ''/root/x'' = True \<and>
   Exists (\<lambda>p. if p = ''/tmp/me'' then Inr Directory
               else if p = ''/root/x'' then Inl EACCES else Inl ENOENT) ''/tmp/you'' = False"
  using Exists_iff [of "\<lambda>p. if p = ''/tmp/me'' then Inr Directory
               else if p = ''/root/x'' then Inl EACCES else Inl ENOENT" "''/tmp/me''"]
    Exists_iff [of "\<lambda>p. if p = ''/tmp/me'' then Inr Directory
               else if p = ''/root/x'' then Inl EACCES else Inl ENOENT" "''/root/x''"]
    Exists_iff [of "\<lambda>p. if p = ''/tmp/me'' then Inr Directory
               else if p = ''/root/x'' then Inl EACCES else Inl ENOENT" "''/tmp/you''"]
  by (simp add: Stat_def)

section \<open>The assertions of the package's tests\<close>

text \<open>
  The values the tests of the package expect, computed on the model: the defaults
  under \<open>HOME=/home/t\<close>, the fallback for a key that is no role, the missing home
  directory, and \<open>Append\<close> on a path that ends in a separator.
\<close>

lemma test_unknown_key:
  "getDir [''HOME'' \<mapsto> ''/home/t''] (NewXDG (NewDirFinder ''go-xdg-test'')) ''unknown_key''
     = ''/home/t/.go-xdg-test''"
  "getDirs [''HOME'' \<mapsto> ''/home/t''] (NewXDG (NewDirFinder ''go-xdg-test'')) ''unknown_key'' = []"
  by code_simp+

lemma test_defaults:
  "Config [''HOME'' \<mapsto> ''/home/t''] ''go-xdg-test'' = ''/home/t/.config/go-xdg-test''"
  "Cache [''HOME'' \<mapsto> ''/home/t''] ''go-xdg-test'' = ''/home/t/.cache/go-xdg-test''"
  "Data [''HOME'' \<mapsto> ''/home/t''] ''go-xdg-test'' = ''/home/t/.local/share/go-xdg-test''"
  "State [''HOME'' \<mapsto> ''/home/t''] ''go-xdg-test'' = ''/home/t/.local/state/go-xdg-test''"
  "Runtime [''HOME'' \<mapsto> ''/home/t''] ''go-xdg-test'' = []"
  by code_simp+

lemma test_no_home:
  "getDir Map.empty (NewXDG (NewDirFinder ''go-xdg-test'')) configHomeKey = []"
  by code_simp

lemma test_dir_append:
  "Append ''/tmp/me/.local/share/run/'' ''x'' = ''/tmp/me/.local/share/run/x''"
  by code_simp

end
